theory Spec2Isabelle
  imports Main "HOL-Library.Word" "HOL-Library.Sublist" "HOL-Library.AList"
begin

section \<open>JavaScript strings\<close>

text \<open>
  The bundler \<^verbatim>\<open>scripts/bundle-content.cjs\<close> works on JavaScript strings: sequences of
  UTF-16 code units. A file read with \<^verbatim>\<open>readFileSync(p, 'utf8')\<close> is modelled by the
  string the call returns. \<open>js\<close> embeds an ASCII literal of the script.
\<close>

type_synonym jschar = "16 word"
type_synonym jsstring = "jschar list"

definition js :: "string \<Rightarrow> jsstring" where
  "js s = map (\<lambda>c. of_nat (of_char c)) s"

definition LF :: jschar where
  "LF = 0x0A"

text \<open>
  \<^verbatim>\<open>.\<close> in a regular expression without the \<^verbatim>\<open>s\<close> flag matches every code unit that is
  not a LineTerminator (LF, CR, U+2028, U+2029).
\<close>

definition is_line_terminator :: "jschar \<Rightarrow> bool" where
  "is_line_terminator c \<longleftrightarrow> c = 0x0A \<or> c = 0x0D \<or> c = 0x2028 \<or> c = 0x2029"

text \<open>
  \<^verbatim>\<open>\s\<close> and \<^verbatim>\<open>String.prototype.trim\<close> use the same set: WhiteSpace (TAB, VT, FF, SP,
  NBSP, U+FEFF and the category Zs) and LineTerminator.
\<close>

definition is_space :: "jschar \<Rightarrow> bool" where
  "is_space c \<longleftrightarrow>
     c = 0x09 \<or> c = 0x0B \<or> c = 0x0C \<or> c = 0x20 \<or> c = 0xA0 \<or> c = 0x1680
     \<or> (0x2000 \<le> c \<and> c \<le> 0x200A) \<or> c = 0x202F \<or> c = 0x205F \<or> c = 0x3000
     \<or> c = 0xFEFF \<or> is_line_terminator c"

definition is_quote :: "jschar \<Rightarrow> bool" where
  "is_quote c \<longleftrightarrow> c = 0x22 \<or> c = 0x27"

definition trim :: "jsstring \<Rightarrow> jsstring" where
  "trim s = rev (dropWhile is_space (rev (dropWhile is_space s)))"

text \<open>\<^verbatim>\<open>s.slice(1, -1)\<close>: the string without its first and its last code unit.\<close>

definition slice_1_m1 :: "jsstring \<Rightarrow> jsstring" where
  "slice_1_m1 s = butlast (tl s)"

section \<open>The frontmatter parser\<close>

text \<open>
  \<^verbatim>\<open>content.match(/^---\s*\n([\s\S]*?)\n---/)\<close>. The expression has no \<^verbatim>\<open>m\<close> flag, so
  \<^verbatim>\<open>^\<close> is the start of the document. The functions follow the backtracking matcher:
  \<open>lazy_block\<close> is \<^verbatim>\<open>([\s\S]*?)\n---\<close> at the head of its argument (the shortest capture
  first), \<open>ws_then_block\<close> is \<^verbatim>\<open>\s*\n([\s\S]*?)\n---\<close> (the greedy \<^verbatim>\<open>\s*\<close> takes a code unit
  when it can and gives it back when the rest fails). The result is capture group 1.
\<close>

fun lazy_block :: "jsstring \<Rightarrow> jsstring option" where
  "lazy_block [] = None"
| "lazy_block (c # cs) =
     (if prefix (LF # js ''---'') (c # cs) then Some []
      else map_option (Cons c) (lazy_block cs))"

fun ws_then_block :: "jsstring \<Rightarrow> jsstring option" where
  "ws_then_block [] = None"
| "ws_then_block (c # cs) =
     (case (if is_space c then ws_then_block cs else None) of
        Some b \<Rightarrow> Some b
      | None \<Rightarrow> if c = LF then lazy_block cs else None)"

definition match_frontmatter :: "jsstring \<Rightarrow> jsstring option" where
  "match_frontmatter content =
     (if prefix (js ''---'') content then ws_then_block (drop 3 content) else None)"

text \<open>
  \<^verbatim>\<open>block.match(/name:\s*(.+)/)\<close> and \<^verbatim>\<open>block.match(/description:\s*(.+)/)\<close>: an unanchored
  search, leftmost start first. \<open>dot_plus\<close> is the greedy \<^verbatim>\<open>(.+)\<close> that ends the pattern,
  \<open>ws_then_value\<close> is \<^verbatim>\<open>\s*(.+)\<close> with the backtracking of \<^verbatim>\<open>\s*\<close>, \<open>search_field\<close> tries
  every start position in turn. The result is capture group 1.
\<close>

definition dot_plus :: "jsstring \<Rightarrow> jsstring option" where
  "dot_plus s =
     (let m = takeWhile (\<lambda>c. \<not> is_line_terminator c) s
      in if m = [] then None else Some m)"

fun ws_then_value :: "jsstring \<Rightarrow> jsstring option" where
  "ws_then_value [] = None"
| "ws_then_value (c # cs) =
     (case (if is_space c then ws_then_value cs else None) of
        Some v \<Rightarrow> Some v
      | None \<Rightarrow> dot_plus (c # cs))"

fun search_field :: "jsstring \<Rightarrow> jsstring \<Rightarrow> jsstring option" where
  "search_field key [] =
     (if prefix key [] then ws_then_value (drop (length key) []) else None)"
| "search_field key (c # cs) =
     (case (if prefix key (c # cs) then ws_then_value (drop (length key) (c # cs)) else None) of
        Some v \<Rightarrow> Some v
      | None \<Rightarrow> search_field key cs)"

text \<open>
  \<^verbatim>\<open>.replace(/^["']|["']$/g, '')\<close>: every match is removed. A match is one quote
  character that is the first code unit of the string (\<^verbatim>\<open>^\<close>) or the last one (\<^verbatim>\<open>$\<close>).
  The flag says whether the position is the start of the string.
\<close>

fun replace_edge_quotes :: "bool \<Rightarrow> jsstring \<Rightarrow> jsstring" where
  "replace_edge_quotes at_start [] = []"
| "replace_edge_quotes at_start (c # cs) =
     (if is_quote c \<and> (at_start \<or> cs = []) then replace_edge_quotes False cs
      else c # replace_edge_quotes False cs)"

definition strip_name :: "jsstring \<Rightarrow> jsstring" where
  "strip_name v = replace_edge_quotes True (trim v)"

text \<open>
  \<^verbatim>\<open>let desc = descMatch[1].trim();
  if (desc && (desc.startsWith('"') || desc.startsWith("'"))) desc = desc.slice(1, -1);\<close>
\<close>

definition strip_description :: "jsstring \<Rightarrow> jsstring" where
  "strip_description v =
     (let desc = trim v
      in if desc \<noteq> [] \<and> (prefix (js ''\"'') desc \<or> prefix (js [CHR 0x27]) desc)
         then slice_1_m1 desc else desc)"

text \<open>The object \<^verbatim>\<open>{ name, description }\<close>; \<open>None\<close> is \<^verbatim>\<open>null\<close>.\<close>

record frontmatter =
  fm_name :: "jsstring option"
  fm_description :: "jsstring option"

definition extractFrontmatter :: "jsstring \<Rightarrow> frontmatter" where
  "extractFrontmatter content =
     (case match_frontmatter content of
        None \<Rightarrow> \<lparr>fm_name = None, fm_description = None\<rparr>
      | Some block \<Rightarrow>
          \<lparr>fm_name = map_option strip_name (search_field (js ''name:'') block),
           fm_description = map_option strip_description (search_field (js ''description:'') block)\<rparr>)"

section \<open>The file system\<close>

text \<open>
  The directory \<^verbatim>\<open>ROOT\<close> (\<^verbatim>\<open>mcp-server\<close>) is a tree. A directory lists its entries in the
  order \<^verbatim>\<open>readdirSync\<close> returns them; a file holds its text. A path is the list of its
  components below \<^verbatim>\<open>ROOT\<close>. Links, permissions and special files are not modelled.
\<close>

datatype node = File jsstring | Dir "(jsstring \<times> node) list"

datatype error = ENOENT | ENOTDIR | EISDIR | EEXIST | SyntaxError | TypeError

type_synonym path = "jsstring list"

fun lookup :: "node \<Rightarrow> path \<Rightarrow> node option" where
  "lookup n [] = Some n"
| "lookup (File t) (p # ps) = None"
| "lookup (Dir es) (p # ps) = (case map_of es p of None \<Rightarrow> None | Some n \<Rightarrow> lookup n ps)"

definition existsSync :: "node \<Rightarrow> path \<Rightarrow> bool" where
  "existsSync root p \<longleftrightarrow> lookup root p \<noteq> None"

definition readFileSync :: "node \<Rightarrow> path \<Rightarrow> error + jsstring" where
  "readFileSync root p =
     (case lookup root p of
        None \<Rightarrow> Inl ENOENT
      | Some (File t) \<Rightarrow> Inr t
      | Some (Dir es) \<Rightarrow> Inl EISDIR)"

definition readdirSync :: "node \<Rightarrow> path \<Rightarrow> error + (jsstring \<times> node) list" where
  "readdirSync root p =
     (case lookup root p of
        None \<Rightarrow> Inl ENOENT
      | Some (File t) \<Rightarrow> Inl ENOTDIR
      | Some (Dir es) \<Rightarrow> Inr es)"

fun isDirectory :: "node \<Rightarrow> bool" where
  "isDirectory (Dir es) = True"
| "isDirectory (File t) = False"

definition SKILLS_DIR :: path where
  "SKILLS_DIR = [js ''skills'']"

definition SUBAGENTS_DIR :: path where
  "SUBAGENTS_DIR = [js ''subagents'']"



section \<open>Plain objects\<close>

text \<open>
  An object created by \<^verbatim>\<open>{}\<close> is the list of its own properties in creation order.
  \<^verbatim>\<open>byName[k] = v\<close> overwrites the value of an own property in place and appends a new
  one, except for the key \<^verbatim>\<open>__proto__\<close>: that is the accessor inherited from
  \<^verbatim>\<open>Object.prototype\<close>, whose setter replaces the prototype (\<open>v\<close> is an object here) and
  creates no own property.
\<close>

type_synonym 'v jsobject = "(jsstring \<times> 'v) list"

definition obj_set :: "'v jsobject \<Rightarrow> jsstring \<Rightarrow> 'v \<Rightarrow> 'v jsobject" where
  "obj_set ob k v = (if k = js ''__proto__'' then ob else AList.update k v ob)"

text \<open>
  \<^verbatim>\<open>Object.values\<close>, \<^verbatim>\<open>Object.entries\<close> and \<^verbatim>\<open>JSON.stringify\<close> enumerate own properties
  in the order of OrdinaryOwnPropertyKeys: array indices (canonical decimal strings of
  integers up to \<open>2\<^sup>3\<^sup>2 - 2\<close>) ascending, then the other keys in creation order.
\<close>

definition is_digit :: "jschar \<Rightarrow> bool" where
  "is_digit c \<longleftrightarrow> 0x30 \<le> c \<and> c \<le> 0x39"

definition index_value :: "jsstring \<Rightarrow> int" where
  "index_value s = foldl (\<lambda>n c. 10 * n + (uint c - 48)) 0 s"

definition is_array_index :: "jsstring \<Rightarrow> bool" where
  "is_array_index s \<longleftrightarrow>
     s \<noteq> [] \<and> list_all is_digit s \<and> (s = [0x30] \<or> 0x31 \<le> hd s)
     \<and> index_value s \<le> 4294967294"

definition Object_entries :: "'v jsobject \<Rightarrow> (jsstring \<times> 'v) list" where
  "Object_entries ob =
     sort_key (\<lambda>e. index_value (fst e)) (filter (\<lambda>e. is_array_index (fst e)) ob)
     @ filter (\<lambda>e. \<not> is_array_index (fst e)) ob"

definition Object_values :: "'v jsobject \<Rightarrow> 'v list" where
  "Object_values ob = map snd (Object_entries ob)"

text \<open>\<^verbatim>\<open>Object.fromEntries\<close> defines one data property per pair, in order.\<close>

definition Object_fromEntries :: "(jsstring \<times> 'v) list \<Rightarrow> 'v jsobject" where
  "Object_fromEntries es = foldl (\<lambda>ob e. AList.update (fst e) (snd e) ob) [] es"

text \<open>
  \<^verbatim>\<open>a || b\<close> on a string or \<^verbatim>\<open>null\<close> on the left: \<^verbatim>\<open>null\<close> and the empty string
  are falsy.
\<close>

definition or_else :: "jsstring option \<Rightarrow> jsstring \<Rightarrow> jsstring" where
  "or_else a b = (case a of None \<Rightarrow> b | Some s \<Rightarrow> if s = [] then b else s)"

text \<open>\<^verbatim>\<open>!!x\<close> on a string or \<^verbatim>\<open>null\<close>.\<close>

definition truthy :: "jsstring option \<Rightarrow> bool" where
  "truthy a = (case a of None \<Rightarrow> False | Some s \<Rightarrow> s \<noteq> [])"

text \<open>The statements of a loop in turn, stopping at the first exception.\<close>

fun for_each :: "('a \<Rightarrow> 's \<Rightarrow> error + 's) \<Rightarrow> 'a list \<Rightarrow> 's \<Rightarrow> error + 's" where
  "for_each f [] s = Inr s"
| "for_each f (x # xs) s = (case f x s of Inl e \<Rightarrow> Inl e | Inr s' \<Rightarrow> for_each f xs s')"

section \<open>The catalog builder\<close>

record skill =
  skill_id :: jsstring
  skill_name :: jsstring
  skill_description :: jsstring
  skill_content :: jsstring
  skill_reference :: "jsstring option"

record skill_meta =
  meta_id :: jsstring
  meta_name :: jsstring
  hasReference :: bool

record skills_data =
  skills :: "skill_meta list"
  skills_byName :: "skill jsobject"

text \<open>The body of the loop of \<^verbatim>\<open>buildSkills\<close> for the directory entry named \<open>d\<close>.\<close>

definition skill_step :: "node \<Rightarrow> jsstring \<Rightarrow> skill jsobject \<Rightarrow> error + skill jsobject" where
  "skill_step root d byName =
     (let skillDir = SKILLS_DIR @ [d];
          skillPath = skillDir @ [js ''SKILL.md''];
          refPath = skillDir @ [js ''REFERENCE.md'']
      in if \<not> existsSync root skillPath then Inr byName
         else case readFileSync root skillPath of
           Inl e \<Rightarrow> Inl e
         | Inr skillContent \<Rightarrow>
             let fm = extractFrontmatter skillContent;
                 name = or_else (fm_name fm) d
             in case (if existsSync root refPath
                      then map_sum id Some (readFileSync root refPath) else Inr None) of
                  Inl e \<Rightarrow> Inl e
                | Inr reference \<Rightarrow>
                    Inr (obj_set byName name
                      \<lparr>skill_id = d, skill_name = name,
                       skill_description = or_else (fm_description fm) [],
                       skill_content = skillContent, skill_reference = reference\<rparr>))"

definition buildSkills :: "node \<Rightarrow> error + skills_data" where
  "buildSkills root =
     (if \<not> existsSync root SKILLS_DIR then Inr \<lparr>skills = [], skills_byName = []\<rparr>
      else case readdirSync root SKILLS_DIR of
        Inl e \<Rightarrow> Inl e
      | Inr entries \<Rightarrow>
          let skillDirs = filter (\<lambda>e. isDirectory (snd e)) entries
          in case for_each (skill_step root) (map fst skillDirs) [] of
               Inl e \<Rightarrow> Inl e
             | Inr byName \<Rightarrow>
                 Inr \<lparr>skills = map (\<lambda>s. \<lparr>meta_id = skill_id s, meta_name = skill_name s,
                                         hasReference = truthy (skill_reference s)\<rparr>)
                                 (Object_values byName),
                      skills_byName = byName\<rparr>)"

record subagent =
  subagent_id :: jsstring
  subagent_name :: jsstring
  subagent_description :: jsstring
  subagent_content :: jsstring

record subagent_meta =
  ameta_id :: jsstring
  ameta_name :: jsstring

record subagents_data =
  subagents :: "subagent_meta list"
  subagents_byName :: "subagent jsobject"

text \<open>
  \<^verbatim>\<open>path.basename(f, ext)\<close> for a name \<open>f\<close> that \<^verbatim>\<open>readdirSync\<close> returned (it holds no
  separator): \<open>f\<close> without the extension when it ends with it.
\<close>

definition basename :: "jsstring \<Rightarrow> jsstring \<Rightarrow> jsstring" where
  "basename f ext = (if suffix ext f then take (length f - length ext) f else f)"

definition subagent_step :: "node \<Rightarrow> jsstring \<Rightarrow> subagent jsobject \<Rightarrow> error + subagent jsobject" where
  "subagent_step root f byName =
     (case readFileSync root (SUBAGENTS_DIR @ [f]) of
        Inl e \<Rightarrow> Inl e
      | Inr content \<Rightarrow>
          let fm = extractFrontmatter content;
              name = or_else (fm_name fm) (basename f (js ''.md''));
              ident = basename f (js ''.md'')
          in Inr (obj_set byName name
               \<lparr>subagent_id = ident, subagent_name = name,
                subagent_description = or_else (fm_description fm) [],
                subagent_content = content\<rparr>))"

definition buildSubagents :: "node \<Rightarrow> error + subagents_data" where
  "buildSubagents root =
     (if \<not> existsSync root SUBAGENTS_DIR then Inr \<lparr>subagents = [], subagents_byName = []\<rparr>
      else case readdirSync root SUBAGENTS_DIR of
        Inl e \<Rightarrow> Inl e
      | Inr entries \<Rightarrow>
          let files = filter (\<lambda>f. suffix (js ''.md'') f) (map fst entries)
          in case for_each (subagent_step root) files [] of
               Inl e \<Rightarrow> Inl e
             | Inr byName \<Rightarrow>
                 Inr \<lparr>subagents = map (\<lambda>s. \<lparr>ameta_id = subagent_id s, ameta_name = subagent_name s\<rparr>)
                                    (Object_values byName),
                      subagents_byName = byName\<rparr>)"

section \<open>The generated texts\<close>

text \<open>\<^verbatim>\<open>lines.join(sep)\<close>.\<close>

fun join :: "jsstring \<Rightarrow> jsstring list \<Rightarrow> jsstring" where
  "join sep [] = []"
| "join sep [x] = x"
| "join sep (x # y # ys) = x @ sep @ join sep (y # ys)"

text \<open>
  \<^verbatim>\<open>byName[k]\<close> for a key that is an own property; every key read by \<^verbatim>\<open>buildCatalog\<close>
  comes from \<^verbatim>\<open>Object.values(byName)\<close>.
\<close>

definition obj_get :: "'v jsobject \<Rightarrow> jsstring \<Rightarrow> 'v option" where
  "obj_get ob k = map_of ob k"

text \<open>The line \<^verbatim>\<open>`- **${name}** (id: \`${id}\`) \<emdash> ${desc}`\<close>; the dash is U+2014.\<close>

definition catalog_line :: "jsstring \<Rightarrow> jsstring \<Rightarrow> jsstring \<Rightarrow> jsstring" where
  "catalog_line nm ident desc =
     js ''- **'' @ nm @ js ''** (id: `'' @ ident @ js ''`) '' @ [0x2014] @ js '' '' @ desc"

definition buildCatalog :: "skills_data \<Rightarrow> subagents_data \<Rightarrow> jsstring" where
  "buildCatalog skillsData subagentsData =
     join [LF]
       ([js ''# Catalog'', [], js ''## Skills'', []]
        @ map (\<lambda>s. catalog_line (meta_name s) (meta_id s)
                 (or_else (map_option skill_description
                            (obj_get (skills_byName skillsData) (meta_name s)))
                    (js ''(no description)'')))
            (skills skillsData)
        @ [[], js ''## Subagents'', []]
        @ map (\<lambda>a. catalog_line (ameta_name a) (ameta_id a)
                 (or_else (map_option subagent_description
                            (obj_get (subagents_byName subagentsData) (ameta_name a)))
                    (js ''(no description)'')))
            (subagents subagentsData))"

definition readWhenToUse :: "node \<Rightarrow> error + jsstring" where
  "readWhenToUse root =
     (let p = [js ''docs'', js ''when-to-use.md'']
      in if existsSync root p then readFileSync root p else Inr [])"

text \<open>
  \<^verbatim>\<open>JSON.parse\<close> of \<^verbatim>\<open>package.json\<close> is a parameter of the build: it yields the texts that
  the template of \<^verbatim>\<open>buildOverview\<close> prints for \<^verbatim>\<open>pkg.name\<close> and \<^verbatim>\<open>pkg.description\<close>, and
  the text of \<^verbatim>\<open>pkg.version\<close>, \<open>None\<close> when that value is falsy.
\<close>

record package_info =
  pkg_name :: jsstring
  pkg_description :: jsstring
  pkg_version :: "jsstring option"

definition buildOverview :: "(jsstring \<Rightarrow> error + package_info) \<Rightarrow> node \<Rightarrow> error + jsstring" where
  "buildOverview parse_package root =
     (case readFileSync root [js ''package.json''] of
        Inl e \<Rightarrow> Inl e
      | Inr text \<Rightarrow>
          (case parse_package text of
             Inl e \<Rightarrow> Inl e
           | Inr pkg \<Rightarrow>
               Inr (join [LF]
                 [js ''# Overview'',
                  [],
                  js ''**'' @ pkg_name pkg @ js ''** '' @ [0x2014] @ js '' '' @ pkg_description pkg,
                  [],
                  js ''Version: `'' @ or_else (pkg_version pkg) (js ''unknown'') @ js ''`'',
                  [],
                  js ''Use the **catalog** resource for a list of skills and subagents. Use **when-to-use** to choose the right one for the request.''])))"

section \<open>The bundle\<close>

record skill_entry =
  entry_content :: jsstring
  entry_reference :: "jsstring option"

record subagent_entry =
  aentry_content :: jsstring

record bundle_content =
  content_skills :: "skill_entry jsobject"
  content_subagents :: "subagent_entry jsobject"
  catalog :: jsstring
  whenToUse :: jsstring
  overview :: jsstring

record content_bundle =
  out_skills :: "skill_meta list"
  out_subagents :: "subagent_meta list"
  out_content :: bundle_content

text \<open>
  The script down to the object \<^verbatim>\<open>output\<close>, in its evaluation order: \<^verbatim>\<open>buildSkills()\<close>,
  \<^verbatim>\<open>buildSubagents()\<close>, then the properties of the literal.
\<close>

definition build_output :: "(jsstring \<Rightarrow> error + package_info) \<Rightarrow> node \<Rightarrow> error + content_bundle" where
  "build_output parse_package root =
     (case buildSkills root of
        Inl e \<Rightarrow> Inl e
      | Inr skillsData \<Rightarrow>
     (case buildSubagents root of
        Inl e \<Rightarrow> Inl e
      | Inr subagentsData \<Rightarrow>
     (let cskills = Object_fromEntries
            (map (\<lambda>(k, v). (k, \<lparr>entry_content = skill_content v,
                                  entry_reference = skill_reference v\<rparr>))
               (Object_entries (skills_byName skillsData)));
          csubagents = Object_fromEntries
            (map (\<lambda>(k, v). (k, \<lparr>aentry_content = subagent_content v\<rparr>))
               (Object_entries (subagents_byName subagentsData)));
          cat = buildCatalog skillsData subagentsData
      in case readWhenToUse root of
        Inl e \<Rightarrow> Inl e
      | Inr wtu \<Rightarrow>
     (case buildOverview parse_package root of
        Inl e \<Rightarrow> Inl e
      | Inr ov \<Rightarrow>
          Inr \<lparr>out_skills = skills skillsData,
               out_subagents = subagents subagentsData,
               out_content = \<lparr>content_skills = cskills, content_subagents = csubagents,
                               catalog = cat, whenToUse = wtu, overview = ov\<rparr>\<rparr>))))"

section \<open>Serialization and the digest\<close>


text \<open>
  QuoteJSONString walks the code points of the string: a surrogate pair is copied, a lone
  surrogate and a control character are written as a backslash, \<^verbatim>\<open>u\<close> and four lower-case
  hexadecimal digits, and
  backspace, tab, line feed, form feed, carriage return, the quote and the backslash have
  two-character escapes. The backslash is the code unit \<open>0x5C\<close>.
\<close>

definition hex_digit :: "nat \<Rightarrow> jschar" where
  "hex_digit n = js ''0123456789abcdef'' ! (n mod 16)"

definition unicode_escape :: "jschar \<Rightarrow> jsstring" where
  "unicode_escape c =
     [0x5C] @ js ''u'' @ [hex_digit (unat c div 4096), hex_digit (unat c div 256),
                   hex_digit (unat c div 16), hex_digit (unat c)]"

definition is_lead :: "jschar \<Rightarrow> bool" where
  "is_lead c \<longleftrightarrow> 0xD800 \<le> c \<and> c \<le> 0xDBFF"

definition is_trail :: "jschar \<Rightarrow> bool" where
  "is_trail c \<longleftrightarrow> 0xDC00 \<le> c \<and> c \<le> 0xDFFF"

definition escape_unit :: "jschar \<Rightarrow> jsstring" where
  "escape_unit c =
     (if c = 0x08 then [0x5C] @ js ''b''
      else if c = 0x09 then [0x5C] @ js ''t''
      else if c = 0x0A then [0x5C] @ js ''n''
      else if c = 0x0C then [0x5C] @ js ''f''
      else if c = 0x0D then [0x5C] @ js ''r''
      else if c = 0x22 then [0x5C] @ js ''\"''
      else if c = 0x5C then [0x5C, 0x5C]
      else if c < 0x20 then unicode_escape c
      else [c])"

fun quote_units :: "jsstring \<Rightarrow> jsstring" where
  "quote_units [] = []"
| "quote_units [c] = (if is_lead c \<or> is_trail c then unicode_escape c else escape_unit c)"
| "quote_units (c # d # ds) =
     (if is_lead c then
        (if is_trail d then c # d # quote_units ds else unicode_escape c @ quote_units (d # ds))
      else if is_trail c then unicode_escape c @ quote_units (d # ds)
      else escape_unit c @ quote_units (d # ds))"

definition QuoteJSONString :: "jsstring \<Rightarrow> jsstring" where
  "QuoteJSONString s = js ''\"'' @ quote_units s @ js ''\"''"










section \<open>The runtime loader and the Get surface\<close>






section \<open>Inputs and predicates of the specification\<close>

text \<open>
  A document whose frontmatter block declares \<^verbatim>\<open>name: v\<close> and \<^verbatim>\<open>description: v\<close>, one
  field a line, followed by any text.
\<close>

definition declaring_doc :: "jsstring \<Rightarrow> jsstring \<Rightarrow> jsstring" where
  "declaring_doc v rest =
     js ''---'' @ [LF] @ js ''name: '' @ v @ [LF] @ js ''description: '' @ v @ [LF]
     @ js ''---'' @ rest"


text \<open>
  The record that a run of the loop body of \<^verbatim>\<open>buildSkills\<close> without exception assigns
  for the directory \<open>d\<close>, \<open>None\<close> when it assigns none; likewise for the file \<open>f\<close> of
  \<^verbatim>\<open>buildSubagents\<close>. The lemmas \<open>skill_step_made\<close> and \<open>subagent_step_made\<close> relate
  them to the loop bodies.
\<close>

definition skill_made :: "node \<Rightarrow> jsstring \<Rightarrow> skill option" where
  "skill_made root d =
     (case readFileSync root (SKILLS_DIR @ [d, js ''SKILL.md'']) of
        Inl e \<Rightarrow> None
      | Inr c \<Rightarrow>
          Some \<lparr>skill_id = d,
                skill_name = or_else (fm_name (extractFrontmatter c)) d,
                skill_description = or_else (fm_description (extractFrontmatter c)) [],
                skill_content = c,
                skill_reference =
                  (case readFileSync root (SKILLS_DIR @ [d, js ''REFERENCE.md'']) of
                     Inl e \<Rightarrow> None | Inr t \<Rightarrow> Some t)\<rparr>)"

definition subagent_made :: "node \<Rightarrow> jsstring \<Rightarrow> subagent option" where
  "subagent_made root f =
     (case readFileSync root (SUBAGENTS_DIR @ [f]) of
        Inl e \<Rightarrow> None
      | Inr c \<Rightarrow>
          Some \<lparr>subagent_id = basename f (js ''.md''),
                subagent_name = or_else (fm_name (extractFrontmatter c)) (basename f (js ''.md'')),
                subagent_description = or_else (fm_description (extractFrontmatter c)) [],
                subagent_content = c\<rparr>)"

text \<open>
  The names that the two loops run over, in their order: the directories of the skills
  root and the files of the subagents root that end with \<^verbatim>\<open>.md\<close>; none when the root is
  not a directory.
\<close>

definition skill_dirs :: "node \<Rightarrow> jsstring list" where
  "skill_dirs root =
     (case readdirSync root SKILLS_DIR of
        Inl e \<Rightarrow> []
      | Inr entries \<Rightarrow> map fst (filter (\<lambda>e. isDirectory (snd e)) entries))"

definition subagent_files :: "node \<Rightarrow> jsstring list" where
  "subagent_files root =
     (case readdirSync root SUBAGENTS_DIR of
        Inl e \<Rightarrow> []
      | Inr entries \<Rightarrow> filter (\<lambda>f. suffix (js ''.md'') f) (map fst entries))"







text \<open>
  A root directory with neither a skills root nor a subagents root, and a directory of
  the skills root without primary document. \<open>bare_package\<close> stands for the parsed
  \<^verbatim>\<open>package.json\<close> of the examples.
\<close>

definition bare_root :: node where
  "bare_root = Dir [(js ''package.json'', File (js ''{}''))]"

definition bare_package :: "jsstring \<Rightarrow> error + package_info" where
  "bare_package text =
     Inr \<lparr>pkg_name = js ''undefined'', pkg_description = js ''undefined'', pkg_version = None\<rparr>"

definition notes_root :: node where
  "notes_root = Dir [(js ''skills'', Dir [(js ''notes'', Dir [(js ''README.md'', File (js ''x''))])])]"

text \<open>
  Two skill directories whose primary documents declare \<^verbatim>\<open>name: __proto__\<close>, and a skill
  directory whose \<^verbatim>\<open>REFERENCE.md\<close> is an empty file.
\<close>

definition proto_doc :: jsstring where
  "proto_doc = js ''---'' @ [LF] @ js ''name: __proto__'' @ [LF] @ js ''---'' @ [LF]"

definition proto_root :: node where
  "proto_root =
     Dir [(js ''skills'',
           Dir [(js ''a'', Dir [(js ''SKILL.md'', File proto_doc)]),
                (js ''b'', Dir [(js ''SKILL.md'', File proto_doc)])]),
          (js ''package.json'', File (js ''{}''))]"

definition empty_reference_root :: node where
  "empty_reference_root =
     Dir [(js ''skills'',
           Dir [(js ''foo'', Dir [(js ''SKILL.md'', File (js ''# Foo'')),
                                   (js ''REFERENCE.md'', File [])])]),
          (js ''package.json'', File (js ''{}''))]"

text \<open>
  A text has no extraneous white space when no space, tab, line feed or carriage return
  stands outside its string literals (and it does not end inside one). The scanner
  follows the literals: a quote opens and closes one, a backslash inside one protects
  the next code unit.
\<close>

datatype scan_state = Outside | InString | Escaped

fun compact_from :: "scan_state \<Rightarrow> jsstring \<Rightarrow> bool" where
  "compact_from st [] = (st = Outside)"
| "compact_from Outside (c # cs) =
     (if c = 0x22 then compact_from InString cs
      else c \<noteq> 0x20 \<and> c \<noteq> 0x09 \<and> c \<noteq> 0x0A \<and> c \<noteq> 0x0D \<and> compact_from Outside cs)"
| "compact_from InString (c # cs) =
     (if c = 0x5C then compact_from Escaped cs
      else if c = 0x22 then compact_from Outside cs
      else compact_from InString cs)"
| "compact_from Escaped (c # cs) = compact_from InString cs"


definition is_lower_hex :: "jschar \<Rightarrow> bool" where
  "is_lower_hex c \<longleftrightarrow> c \<in> set (js ''0123456789abcdef'')"








section \<open>Properties of the frontmatter parser\<close>






lemma js_Nil [simp]: "js [] = []" by (simp add: js_def)

lemma is_space_LF [simp]: "is_space LF"
  by (simp add: is_space_def is_line_terminator_def LF_def)


lemma lazy_block_sound:
  "lazy_block s = Some b \<Longrightarrow> \<exists>rest. s = b @ LF # js ''---'' @ rest"
proof (induction s arbitrary: b)
  case Nil
  then show ?case by simp
next
  case (Cons c cs)
  show ?case
  proof (cases "prefix (LF # js ''---'') (c # cs)")
    case True
    with Cons.prems have "b = []" by simp
    with True show ?thesis by (auto simp: prefix_def)
  next
    case False
    with Cons.prems obtain b' where b': "lazy_block cs = Some b'" "b = c # b'" by auto
    from Cons.IH [OF b'(1)] b'(2) show ?thesis by auto
  qed
qed

lemma lazy_block_complete: "lazy_block (b @ LF # js ''---'' @ rest) \<noteq> None"
  by (induction b) auto


lemma ws_then_block_sound:
  "ws_then_block s = Some b \<Longrightarrow>
   \<exists>ws rest. s = ws @ LF # b @ LF # js ''---'' @ rest \<and> list_all is_space ws"
proof (induction s)
  case Nil
  then show ?case by simp
next
  case (Cons c cs)
  show ?case
  proof (cases "is_space c \<and> ws_then_block cs \<noteq> None")
    case True
    with Cons.prems have "ws_then_block cs = Some b" by auto
    from Cons.IH [OF this] obtain ws rest
      where "cs = ws @ LF # b @ LF # js ''---'' @ rest" "list_all is_space ws" by blast
    with True have "c # cs = (c # ws) @ LF # b @ LF # js ''---'' @ rest \<and> list_all is_space (c # ws)"
      by simp
    then show ?thesis by blast
  next
    case False
    with Cons.prems have "c = LF" "lazy_block cs = Some b"
      by (auto split: if_splits option.splits)
    with lazy_block_sound [of cs b] obtain rest where "c # cs = [] @ LF # b @ LF # js ''---'' @ rest"
      by auto
    moreover have "list_all is_space []" by simp
    ultimately show ?thesis by blast
  qed
qed

lemma ws_then_block_complete:
  "list_all is_space ws \<Longrightarrow> ws_then_block (ws @ LF # b @ LF # js ''---'' @ rest) \<noteq> None"
proof (induction ws)
  case Nil
  show ?case using lazy_block_complete [of b rest] by (auto split: option.splits)
next
  case (Cons w ws)
  then show ?case by (auto split: option.splits)
qed

lemma js_dashes_length [simp]: "length (js ''---'') = 3" by (simp add: js_def)

lemma match_frontmatter_iff:
  "match_frontmatter content \<noteq> None \<longleftrightarrow>
   (\<exists>ws b rest. content = js ''---'' @ ws @ LF # b @ LF # js ''---'' @ rest \<and> list_all is_space ws)"
proof
  assume "match_frontmatter content \<noteq> None"
  then obtain b where p: "prefix (js ''---'') content" and "ws_then_block (drop 3 content) = Some b"
    by (auto simp: match_frontmatter_def split: if_splits)
  from ws_then_block_sound [OF this(2)] obtain ws rest
    where d: "drop 3 content = ws @ LF # b @ LF # js ''---'' @ rest" "list_all is_space ws" by blast
  from p have "content = js ''---'' @ drop 3 content" by (auto simp: prefix_def)
  with d show "\<exists>ws b rest. content = js ''---'' @ ws @ LF # b @ LF # js ''---'' @ rest \<and> list_all is_space ws"
    by metis
next
  assume "\<exists>ws b rest. content = js ''---'' @ ws @ LF # b @ LF # js ''---'' @ rest \<and> list_all is_space ws"
  then obtain ws b rest where c: "content = js ''---'' @ ws @ LF # b @ LF # js ''---'' @ rest"
    and ws: "list_all is_space ws" by blast
  from c have "prefix (js ''---'') content" "drop 3 content = ws @ LF # b @ LF # js ''---'' @ rest"
    by simp_all
  with ws_then_block_complete [OF ws, of b rest] show "match_frontmatter content \<noteq> None"
    by (simp add: match_frontmatter_def)
qed


lemma dot_plus_Cons: "\<not> is_line_terminator c \<Longrightarrow> dot_plus (c # r) = Some (c # takeWhile (\<lambda>c. \<not> is_line_terminator c) r)"
  by (simp add: dot_plus_def)

lemma dot_plus_sound: "dot_plus s = Some v \<Longrightarrow> \<exists>c r. s = c # r \<and> \<not> is_line_terminator c"
  by (cases s) (auto simp: dot_plus_def split: if_splits)

lemma ws_then_value_sound:
  "ws_then_value s = Some v \<Longrightarrow>
   \<exists>ws c r. s = ws @ c # r \<and> list_all is_space ws \<and> \<not> is_line_terminator c"
proof (induction s arbitrary: v)
  case Nil
  then show ?case by simp
next
  case (Cons a s)
  show ?case
  proof (cases "is_space a \<and> ws_then_value s \<noteq> None")
    case True
    then obtain v' where "ws_then_value s = Some v'" by auto
    from Cons.IH [OF this] obtain ws c r
      where "s = ws @ c # r" "list_all is_space ws" "\<not> is_line_terminator c" by blast
    with True have "a # s = (a # ws) @ c # r \<and> list_all is_space (a # ws) \<and> \<not> is_line_terminator c"
      by simp
    then show ?thesis by blast
  next
    case False
    with Cons.prems have "dot_plus (a # s) = Some v" by (auto split: if_splits option.splits)
    from dot_plus_sound [OF this] have "a # s = [] @ a # s \<and> list_all is_space [] \<and> \<not> is_line_terminator a"
      by simp
    then show ?thesis by blast
  qed
qed

lemma ws_then_value_complete:
  "list_all is_space ws \<Longrightarrow> \<not> is_line_terminator c \<Longrightarrow> ws_then_value (ws @ c # r) \<noteq> None"
  by (induction ws) (auto simp: dot_plus_Cons split: option.splits)


lemma search_field_sound:
  "search_field key b = Some v \<Longrightarrow>
   \<exists>u ws c r. b = u @ key @ ws @ c # r \<and> list_all is_space ws \<and> \<not> is_line_terminator c"
proof (induction b)
  case Nil
  then have "ws_then_value (drop (length key) []) = Some v" by (auto split: if_splits)
  then show ?case by simp
next
  case (Cons a b)
  show ?case
  proof (cases "prefix key (a # b) \<and> ws_then_value (drop (length key) (a # b)) \<noteq> None")
    case True
    then obtain v' where p: "prefix key (a # b)" and "ws_then_value (drop (length key) (a # b)) = Some v'"
      by auto
    from ws_then_value_sound [OF this(2)] obtain ws c r
      where d: "drop (length key) (a # b) = ws @ c # r" "list_all is_space ws" "\<not> is_line_terminator c"
      by blast
    from p have "a # b = key @ drop (length key) (a # b)" by (auto simp: prefix_def)
    with d have "a # b = [] @ key @ ws @ c # r" by simp
    with d show ?thesis by blast
  next
    case False
    with Cons.prems have "search_field key b = Some v" by (auto split: if_splits option.splits)
    from Cons.IH [OF this] obtain u ws c r
      where "b = u @ key @ ws @ c # r" "list_all is_space ws" "\<not> is_line_terminator c" by blast
    then have "a # b = (a # u) @ key @ ws @ c # r \<and> list_all is_space ws \<and> \<not> is_line_terminator c"
      by simp
    then show ?thesis by blast
  qed
qed

lemma search_field_here:
  "prefix key s \<Longrightarrow> ws_then_value (drop (length key) s) = Some v \<Longrightarrow> search_field key s = Some v"
  by (cases s) auto

lemma search_field_complete:
  "list_all is_space ws \<Longrightarrow> \<not> is_line_terminator c \<Longrightarrow>
   search_field key (u @ key @ ws @ c # r) \<noteq> None"
proof (induction u)
  case Nil
  with ws_then_value_complete [of ws c r] obtain v where "ws_then_value (ws @ c # r) = Some v"
    by auto
  then have "search_field key (key @ ws @ c # r) = Some v"
    by (intro search_field_here) simp_all
  then show ?case by simp
next
  case (Cons a u)
  then show ?case by (auto split: option.splits)
qed

lemma search_field_iff:
  "search_field key b \<noteq> None \<longleftrightarrow>
   (\<exists>u ws c r. b = u @ key @ ws @ c # r \<and> list_all is_space ws \<and> \<not> is_line_terminator c)"
  using search_field_sound [of key b] search_field_complete [of _ _ key] by (metis not_Some_eq)





lemma trim_dropWhile [simp]: "trim (dropWhile is_space v) = trim v"
  by (simp add: trim_def)

lemma strip_name_dropWhile [simp]: "strip_name (dropWhile is_space v) = strip_name v"
  by (simp add: strip_name_def)

lemma strip_description_dropWhile [simp]: "strip_description (dropWhile is_space v) = strip_description v"
  by (simp add: strip_description_def)















lemma description_loses_code_unit:
  "extractFrontmatter (declaring_doc (js ''\"abc'') [])
     = \<lparr>fm_name = Some (js ''abc''), fm_description = Some (js ''ab'')\<rparr>"
  by code_simp


text \<open>
  Claim C7. The parser is a total function into a pair of optional texts; it has no
  failing branch. A document that does not begin with the marker \<^verbatim>\<open>---\<close>, white space
  and a line feed, a block, and a line feed followed by \<^verbatim>\<open>---\<close> yields \<^verbatim>\<open>null\<close> for both
  fields. When there is a block \<open>b\<close>, the name comes from the search for \<^verbatim>\<open>name:\<close> in \<open>b\<close>
  alone and the description from the search for \<^verbatim>\<open>description:\<close> in \<open>b\<close> alone: a field is
  \<^verbatim>\<open>null\<close> exactly when its key is nowhere in \<open>b\<close> followed by optional white space and a
  code unit that is no line terminator, whatever the other field is.
\<close>

theorem extractFrontmatter_total:
  "((\<nexists>ws b rest. content = js ''---'' @ ws @ LF # b @ LF # js ''---'' @ rest
        \<and> list_all is_space ws)
      \<longrightarrow> extractFrontmatter content = \<lparr>fm_name = None, fm_description = None\<rparr>)
   \<and> (match_frontmatter content = Some b \<longrightarrow>
        fm_name (extractFrontmatter content)
          = map_option strip_name (search_field (js ''name:'') b)
      \<and> fm_description (extractFrontmatter content)
          = map_option strip_description (search_field (js ''description:'') b)
      \<and> (fm_name (extractFrontmatter content) = None \<longleftrightarrow>
           (\<nexists>u ws c r. b = u @ js ''name:'' @ ws @ c # r \<and> list_all is_space ws
              \<and> \<not> is_line_terminator c))
      \<and> (fm_description (extractFrontmatter content) = None \<longleftrightarrow>
           (\<nexists>u ws c r. b = u @ js ''description:'' @ ws @ c # r \<and> list_all is_space ws
              \<and> \<not> is_line_terminator c)))"
proof (intro conjI impI)
  assume "\<nexists>ws b rest. content = js ''---'' @ ws @ LF # b @ LF # js ''---'' @ rest
        \<and> list_all is_space ws"
  then have "match_frontmatter content = None" using match_frontmatter_iff [of content] by blast
  then show "extractFrontmatter content = \<lparr>fm_name = None, fm_description = None\<rparr>"
    by (simp add: extractFrontmatter_def)
next
  assume m: "match_frontmatter content = Some b"
  show n: "fm_name (extractFrontmatter content)
          = map_option strip_name (search_field (js ''name:'') b)"
    using m by (simp add: extractFrontmatter_def)
  show d: "fm_description (extractFrontmatter content)
          = map_option strip_description (search_field (js ''description:'') b)"
    using m by (simp add: extractFrontmatter_def)
  show "fm_name (extractFrontmatter content) = None \<longleftrightarrow>
           (\<nexists>u ws c r. b = u @ js ''name:'' @ ws @ c # r \<and> list_all is_space ws
              \<and> \<not> is_line_terminator c)"
    unfolding n using search_field_iff [of "js ''name:''" b] by (simp only: map_option_is_None) blast
  show "fm_description (extractFrontmatter content) = None \<longleftrightarrow>
           (\<nexists>u ws c r. b = u @ js ''description:'' @ ws @ c # r \<and> list_all is_space ws
              \<and> \<not> is_line_terminator c)"
    unfolding d using search_field_iff [of "js ''description:''" b] by (simp only: map_option_is_None) blast
qed

theorem extractFrontmatter_total_witness:
  "(\<nexists>ws b rest. js ''# Notes'' = js ''---'' @ ws @ LF # b @ LF # js ''---'' @ rest
        \<and> list_all is_space ws)
   \<and> extractFrontmatter (js ''# Notes'') = \<lparr>fm_name = None, fm_description = None\<rparr>
   \<and> match_frontmatter (js ''---'' @ [LF] @ js ''description: does bar'' @ [LF] @ js ''---'')
       = Some (js ''description: does bar'')
   \<and> fm_name (extractFrontmatter (js ''---'' @ [LF] @ js ''description: does bar'' @ [LF] @ js ''---''))
       = None
   \<and> fm_description (extractFrontmatter (js ''---'' @ [LF] @ js ''description: does bar'' @ [LF] @ js ''---''))
       = Some (js ''does bar'')"
proof -
  have 1: "\<nexists>ws b rest. js ''# Notes'' = js ''---'' @ ws @ LF # b @ LF # js ''---'' @ rest
        \<and> list_all is_space ws"
    by (simp add: js_def)
  have 2: "match_frontmatter (js ''---'' @ [LF] @ js ''description: does bar'' @ [LF] @ js ''---'')
       = Some (js ''description: does bar'')"
    by code_simp
  have 3: "search_field (js ''name:'') (js ''description: does bar'') = None" by code_simp
  have 4: "map_option strip_description (search_field (js ''description:'') (js ''description: does bar''))
       = Some (js ''does bar'')" by code_simp
  from extractFrontmatter_total [of "js ''# Notes''" "[]"] 1
  have 5: "extractFrontmatter (js ''# Notes'') = \<lparr>fm_name = None, fm_description = None\<rparr>"
    by blast
  from extractFrontmatter_total
    [of "js ''---'' @ [LF] @ js ''description: does bar'' @ [LF] @ js ''---''"
        "js ''description: does bar''"] 2 3 4
  have "fm_name (extractFrontmatter (js ''---'' @ [LF] @ js ''description: does bar'' @ [LF] @ js ''---''))
       = None"
    and "fm_description (extractFrontmatter (js ''---'' @ [LF] @ js ''description: does bar'' @ [LF] @ js ''---''))
       = Some (js ''does bar'')"
    by simp_all
  with 1 2 5 show ?thesis by blast
qed


section \<open>Properties of plain objects\<close>

lemma obj_set_distinct: "distinct (map fst ob) \<Longrightarrow> distinct (map fst (obj_set ob k v))"
  by (simp add: obj_set_def distinct_update)

lemma obj_set_keys:
  "fst ` set (obj_set ob k v) = (if k = js ''__proto__'' then {} else {k}) \<union> fst ` set ob"
  by (simp add: obj_set_def dom_update)

lemma map_of_obj_set:
  "map_of (obj_set ob k v) = (if k = js ''__proto__'' then map_of ob else (map_of ob)(k \<mapsto> v))"
  by (simp add: obj_set_def update_conv')

lemma Object_entries_set [simp]: "set (Object_entries ob) = set ob"
  by (auto simp: Object_entries_def)

lemma Object_entries_length [simp]: "length (Object_entries ob) = length ob"
  by (simp add: Object_entries_def sum_length_filter_compl)

lemma Object_entries_distinct:
  assumes "distinct (map fst ob)"
  shows "distinct (map fst (Object_entries ob))"
proof -
  from assms have "distinct ob" and inj: "inj_on fst (set ob)" by (simp_all add: distinct_map)
  then have "distinct (Object_entries ob)" by (auto simp: Object_entries_def)
  with inj show ?thesis by (simp add: distinct_map)
qed

lemma map_of_Object_entries:
  "distinct (map fst ob) \<Longrightarrow> map_of (Object_entries ob) = map_of ob"
  by (rule map_of_inject_set [THEN iffD2]) (simp_all add: Object_entries_distinct)

lemma update_fresh: "k \<notin> fst ` set al \<Longrightarrow> AList.update k v al = al @ [(k, v)]"
  by (induction al) auto

lemma update_entry:
  "(k', v') \<in> set (AList.update k v al) \<Longrightarrow> (k', v') \<in> set al \<or> (k' = k \<and> v' = v)"
  by (induction al) (auto split: if_splits)

lemma Object_fromEntries_aux:
  "distinct (map fst (acc @ es)) \<Longrightarrow>
   foldl (\<lambda>ob e. AList.update (fst e) (snd e) ob) acc es = acc @ es"
proof (induction es arbitrary: acc)
  case Nil
  then show ?case by simp
next
  case (Cons e es)
  from Cons.prems have "fst e \<notin> fst ` set acc" by auto
  then have "AList.update (fst e) (snd e) acc = acc @ [e]" by (simp add: update_fresh)
  moreover from Cons.prems have "distinct (map fst ((acc @ [e]) @ es))" by simp
  ultimately show ?case using Cons.IH [of "acc @ [e]"] by simp
qed

lemma Object_fromEntries_distinct:
  "distinct (map fst es) \<Longrightarrow> Object_fromEntries es = es"
  using Object_fromEntries_aux [of "[]" es] by (simp add: Object_fromEntries_def)

text \<open>The keys of an object are distinct: an assignment never adds a key twice.\<close>

lemma foldl_obj_set_distinct:
  "distinct (map fst acc) \<Longrightarrow> distinct (map fst (foldl (\<lambda>ob r. obj_set ob (nm r) r) acc rs))"
  by (induction rs arbitrary: acc) (simp_all add: obj_set_distinct)

lemma foldl_obj_set_entry:
  "(k, r) \<in> set (foldl (\<lambda>ob r. obj_set ob (nm r) r) acc rs) \<Longrightarrow>
   (k, r) \<in> set acc \<or> (r \<in> set rs \<and> k = nm r \<and> k \<noteq> js ''__proto__'')"
proof (induction rs arbitrary: acc)
  case Nil
  then show ?case by simp
next
  case (Cons a rs)
  from Cons.IH [OF Cons.prems [simplified]]
  have "(k, r) \<in> set (obj_set acc (nm a) a) \<or> (r \<in> set rs \<and> k = nm r \<and> k \<noteq> js ''__proto__'')" .
  moreover have "(k, r) \<in> set (obj_set acc (nm a) a) \<Longrightarrow>
      (k, r) \<in> set acc \<or> (r = a \<and> k = nm a \<and> k \<noteq> js ''__proto__'')"
    by (auto simp: obj_set_def dest: update_entry split: if_splits)
  ultimately show ?case by auto
qed

text \<open>The last assignment to a key decides its value.\<close>

lemma map_of_foldl_obj_set_other:
  "\<forall>r \<in> set rs. nm r \<noteq> k \<Longrightarrow>
   map_of (foldl (\<lambda>ob r. obj_set ob (nm r) r) acc rs) k = map_of acc k"
  by (induction rs arbitrary: acc) (auto simp: map_of_obj_set)

lemma map_of_foldl_obj_set_last:
  assumes "nm r \<noteq> js ''__proto__''" and "\<forall>r' \<in> set rs2. nm r' \<noteq> nm r"
  shows "map_of (foldl (\<lambda>ob r. obj_set ob (nm r) r) acc (rs1 @ r # rs2)) (nm r) = Some r"
  using assms by (simp add: map_of_foldl_obj_set_other map_of_obj_set)

lemma map_of_foldl_obj_set_proto:
  "map_of (foldl (\<lambda>ob r. obj_set ob (nm r) r) acc rs) (js ''__proto__'') = map_of acc (js ''__proto__'')"
  by (induction rs arbitrary: acc) (simp_all add: map_of_obj_set)


text \<open>
  The enumeration order on an example: the array indices \<^verbatim>\<open>9\<close>, \<^verbatim>\<open>10\<close> and
  \<^verbatim>\<open>4294967294\<close> come first, in numeric order; \<^verbatim>\<open>01\<close> and \<^verbatim>\<open>4294967295\<close> are no array
  indices and keep their creation order.
\<close>

lemma Object_entries_order:
  "map fst (Object_entries
     [(js ''b'', v1), (js ''10'', v2), (js ''9'', v3), (js ''a'', v4), (js ''01'', v5),
      (js ''4294967295'', v6), (js ''4294967294'', v7)])
   = [js ''9'', js ''10'', js ''4294967294'', js ''b'', js ''a'', js ''01'', js ''4294967295'']"
  by code_simp

section \<open>Properties of the catalog builder\<close>

lemma existsSync_readFileSync:
  "\<not> existsSync root p \<Longrightarrow> readFileSync root p = Inl ENOENT"
  by (simp add: existsSync_def readFileSync_def)

lemma readFileSync_exists: "readFileSync root p = Inr t \<Longrightarrow> existsSync root p"
  by (auto simp: existsSync_def readFileSync_def split: option.splits)

lemma skill_step_made:
  "skill_step root d byName = Inr byName' \<Longrightarrow>
   byName' = (case skill_made root d of None \<Rightarrow> byName
              | Some r \<Rightarrow> obj_set byName (skill_name r) r)"
  by (auto simp: skill_step_def skill_made_def Let_def existsSync_readFileSync
           split: if_splits sum.splits)

lemma subagent_step_made:
  "subagent_step root f byName = Inr byName' \<Longrightarrow>
   byName' = (case subagent_made root f of None \<Rightarrow> byName
              | Some r \<Rightarrow> obj_set byName (subagent_name r) r)"
  by (auto simp: subagent_step_def subagent_made_def Let_def split: sum.splits)

lemma for_each_foldl:
  assumes "\<And>x s s'. f x s = Inr s' \<Longrightarrow> s' = g s x"
  shows "for_each f xs s = Inr s' \<Longrightarrow> s' = foldl g s xs"
proof (induction xs arbitrary: s)
  case Nil
  then show ?case by simp
next
  case (Cons x xs)
  then obtain s1 where 1: "f x s = Inr s1" and 2: "for_each f xs s1 = Inr s'"
    by (auto split: sum.splits)
  from assms [OF 1] Cons.IH [OF 2] show ?case by simp
qed

lemma foldl_made:
  "foldl (\<lambda>ob x. case made x of None \<Rightarrow> ob | Some r \<Rightarrow> obj_set ob (nm r) r) acc xs
   = foldl (\<lambda>ob r. obj_set ob (nm r) r) acc (List.map_filter made xs)"
  by (induction xs arbitrary: acc) (auto simp: List.map_filter_simps split: option.splits)

lemma buildSkills_result:
  assumes "buildSkills root = Inr sd"
  shows "skills_byName sd
         = foldl (\<lambda>ob r. obj_set ob (skill_name r) r) [] (List.map_filter (skill_made root) (skill_dirs root))"
    and "skills sd = map (\<lambda>s. \<lparr>meta_id = skill_id s, meta_name = skill_name s,
                               hasReference = truthy (skill_reference s)\<rparr>)
                      (Object_values (skills_byName sd))"
proof -
  show "skills_byName sd
         = foldl (\<lambda>ob r. obj_set ob (skill_name r) r) [] (List.map_filter (skill_made root) (skill_dirs root))"
  proof (cases "existsSync root SKILLS_DIR")
    case False
    then have "readdirSync root SKILLS_DIR = Inl ENOENT"
      by (simp add: existsSync_def readdirSync_def)
    with False assms show ?thesis
      by (auto simp: buildSkills_def skill_dirs_def List.map_filter_simps)
  next
    case True
    with assms obtain es byName where es: "readdirSync root SKILLS_DIR = Inr es"
      and fe: "for_each (skill_step root) (map fst (filter (\<lambda>e. isDirectory (snd e)) es)) [] = Inr byName"
      and sd: "skills_byName sd = byName"
      by (auto simp: buildSkills_def Let_def split: sum.splits)
    from for_each_foldl [of "skill_step root", OF skill_step_made fe]
    show ?thesis using es sd by (simp add: foldl_made skill_dirs_def)
  qed
  show "skills sd = map (\<lambda>s. \<lparr>meta_id = skill_id s, meta_name = skill_name s,
                               hasReference = truthy (skill_reference s)\<rparr>)
                      (Object_values (skills_byName sd))"
    using assms
    by (auto simp: buildSkills_def Let_def Object_values_def Object_entries_def split: if_splits sum.splits)
qed

lemma buildSubagents_result:
  assumes "buildSubagents root = Inr sd"
  shows "subagents_byName sd
         = foldl (\<lambda>ob r. obj_set ob (subagent_name r) r) []
             (List.map_filter (subagent_made root) (subagent_files root))"
    and "subagents sd = map (\<lambda>s. \<lparr>ameta_id = subagent_id s, ameta_name = subagent_name s\<rparr>)
                      (Object_values (subagents_byName sd))"
proof -
  show "subagents_byName sd
         = foldl (\<lambda>ob r. obj_set ob (subagent_name r) r) []
             (List.map_filter (subagent_made root) (subagent_files root))"
  proof (cases "existsSync root SUBAGENTS_DIR")
    case False
    then have "readdirSync root SUBAGENTS_DIR = Inl ENOENT"
      by (simp add: existsSync_def readdirSync_def)
    with False assms show ?thesis
      by (auto simp: buildSubagents_def subagent_files_def List.map_filter_simps)
  next
    case True
    with assms obtain es byName where es: "readdirSync root SUBAGENTS_DIR = Inr es"
      and fe: "for_each (subagent_step root) (filter (\<lambda>f. suffix (js ''.md'') f) (map fst es)) [] = Inr byName"
      and sd: "subagents_byName sd = byName"
      by (auto simp: buildSubagents_def Let_def split: sum.splits)
    from for_each_foldl [of "subagent_step root", OF subagent_step_made fe]
    show ?thesis using es sd by (simp add: foldl_made subagent_files_def)
  qed
  show "subagents sd = map (\<lambda>s. \<lparr>ameta_id = subagent_id s, ameta_name = subagent_name s\<rparr>)
                      (Object_values (subagents_byName sd))"
    using assms
    by (auto simp: buildSubagents_def Let_def Object_values_def Object_entries_def split: if_splits sum.splits)
qed

lemma skills_byName_distinct:
  "buildSkills root = Inr sd \<Longrightarrow> distinct (map fst (skills_byName sd))"
  by (simp add: buildSkills_result(1) foldl_obj_set_distinct)

lemma subagents_byName_distinct:
  "buildSubagents root = Inr sd \<Longrightarrow> distinct (map fst (subagents_byName sd))"
  by (simp add: buildSubagents_result(1) foldl_obj_set_distinct)

text \<open>Every entry of the map is a record made for one of the enumerated names.\<close>

lemma skills_byName_entry:
  assumes "buildSkills root = Inr sd" and "(k, r) \<in> set (skills_byName sd)"
  shows "k = skill_name r \<and> k \<noteq> js ''__proto__''
         \<and> (\<exists>d \<in> set (skill_dirs root). skill_made root d = Some r)"
proof -
  from assms foldl_obj_set_entry [of k r skill_name "[]"]
  have "r \<in> set (List.map_filter (skill_made root) (skill_dirs root))"
    and "k = skill_name r" "k \<noteq> js ''__proto__''"
    by (auto simp: buildSkills_result(1))
  then show ?thesis by (auto simp: List.map_filter_def)
qed

lemma subagents_byName_entry:
  assumes "buildSubagents root = Inr sd" and "(k, r) \<in> set (subagents_byName sd)"
  shows "k = subagent_name r \<and> k \<noteq> js ''__proto__''
         \<and> (\<exists>f \<in> set (subagent_files root). subagent_made root f = Some r)"
proof -
  from assms foldl_obj_set_entry [of k r subagent_name "[]"]
  have "r \<in> set (List.map_filter (subagent_made root) (subagent_files root))"
    and "k = subagent_name r" "k \<noteq> js ''__proto__''"
    by (auto simp: buildSubagents_result(1))
  then show ?thesis by (auto simp: List.map_filter_def)
qed




lemma skill_made_fields:
  "skill_made root d = Some r \<Longrightarrow>
   \<exists>c. readFileSync root (SKILLS_DIR @ [d, js ''SKILL.md'']) = Inr c
     \<and> skill_id r = d \<and> skill_content r = c
     \<and> skill_name r = or_else (fm_name (extractFrontmatter c)) d
     \<and> skill_description r = or_else (fm_description (extractFrontmatter c)) []
     \<and> skill_reference r = (case readFileSync root (SKILLS_DIR @ [d, js ''REFERENCE.md'']) of
                               Inl e \<Rightarrow> None | Inr t \<Rightarrow> Some t)"
  by (auto simp: skill_made_def split: sum.splits)
























lemma skill_step_skip:
  "\<not> existsSync root (SKILLS_DIR @ [d, js ''SKILL.md'']) \<Longrightarrow> skill_step root d byName = Inr byName"
  by (simp add: skill_step_def)

lemma for_each_skip:
  "for_each (skill_step root) ds byName
   = for_each (skill_step root)
       (filter (\<lambda>d. existsSync root (SKILLS_DIR @ [d, js ''SKILL.md''])) ds) byName"
proof (induction ds arbitrary: byName)
  case Nil
  then show ?case by simp
next
  case (Cons d ds)
  show ?case
  proof (cases "existsSync root (SKILLS_DIR @ [d, js ''SKILL.md''])")
    case True
    then show ?thesis using Cons.IH by (simp split: sum.splits)
  next
    case False
    then show ?thesis using Cons.IH by (simp add: skill_step_skip)
  qed
qed

lemma buildSkills_absent:
  "\<not> existsSync root SKILLS_DIR \<Longrightarrow> buildSkills root = Inr \<lparr>skills = [], skills_byName = []\<rparr>"
  by (simp add: buildSkills_def)

lemma buildSubagents_absent:
  "\<not> existsSync root SUBAGENTS_DIR \<Longrightarrow>
   buildSubagents root = Inr \<lparr>subagents = [], subagents_byName = []\<rparr>"
  by (simp add: buildSubagents_def)

lemma Object_entries_Nil [simp]: "Object_entries [] = []"
  by (simp add: Object_entries_def)

lemma Object_fromEntries_Nil [simp]: "Object_fromEntries [] = []"
  by (simp add: Object_fromEntries_def)

lemma buildSkills_all_skipped:
  assumes es: "readdirSync root SKILLS_DIR = Inr es"
    and no: "\<forall>e \<in> set es. \<not> existsSync root (SKILLS_DIR @ [fst e, js ''SKILL.md''])"
  shows "buildSkills root = Inr \<lparr>skills = [], skills_byName = []\<rparr>"
proof -
  from es have ex: "existsSync root SKILLS_DIR"
    by (auto simp: readdirSync_def existsSync_def split: option.splits)
  from no have "filter (\<lambda>d. existsSync root (SKILLS_DIR @ [d, js ''SKILL.md'']))
      (map fst (filter (\<lambda>e. isDirectory (snd e)) es)) = []"
    by (auto simp: filter_empty_conv)
  then have "for_each (skill_step root) (map fst (filter (\<lambda>e. isDirectory (snd e)) es)) [] = Inr []"
    by (subst for_each_skip) simp
  with es ex show ?thesis
    by (simp add: buildSkills_def Object_values_def)
qed

lemma build_output_no_skills:
  assumes "\<not> existsSync root SKILLS_DIR" "build_output parse_package root = Inr out"
  shows "out_skills out = [] \<and> content_skills (out_content out) = []"
  using assms by (auto simp: build_output_def buildSkills_absent Let_def split: sum.splits)

lemma build_output_no_subagents:
  assumes "\<not> existsSync root SUBAGENTS_DIR" "build_output parse_package root = Inr out"
  shows "out_subagents out = [] \<and> content_subagents (out_content out) = []"
  using assms by (auto simp: build_output_def buildSubagents_absent Let_def split: sum.splits)

lemma build_output_bare:
  assumes "\<not> existsSync root SKILLS_DIR" "\<not> existsSync root SUBAGENTS_DIR"
    "readWhenToUse root = Inr wtu" "buildOverview parse_package root = Inr ov"
  shows "build_output parse_package root
      = Inr \<lparr>out_skills = [], out_subagents = [],
             out_content = \<lparr>content_skills = [], content_subagents = [],
               catalog = buildCatalog \<lparr>skills = [], skills_byName = []\<rparr>
                           \<lparr>subagents = [], subagents_byName = []\<rparr>,
               whenToUse = wtu, overview = ov\<rparr>\<rparr>"
  using assms by (simp add: build_output_def buildSkills_absent buildSubagents_absent)

text \<open>
  Claim C8. Without a skills root \<^verbatim>\<open>buildSkills\<close> returns the empty collection, and without
  a subagents root \<^verbatim>\<open>buildSubagents\<close> does; neither raises. The loop body leaves the map as
  it is for a directory without \<^verbatim>\<open>SKILL.md\<close>, so the loop over all directories is the loop
  over those that have one, and a skills root whose directories all lack the document
  gives the empty collection. A bundle built without a skills root has no skill, one
  built without a subagents root has no subagent, and without both roots the build
  yields the bundle with zero skills and zero subagents whenever the guidance text and
  the overview can be produced.
\<close>

theorem missing_sources_skipped:
  "(\<not> existsSync root SKILLS_DIR \<longrightarrow>
      buildSkills root = Inr \<lparr>skills = [], skills_byName = []\<rparr>)
   \<and> (\<not> existsSync root SUBAGENTS_DIR \<longrightarrow>
      buildSubagents root = Inr \<lparr>subagents = [], subagents_byName = []\<rparr>)
   \<and> (\<not> existsSync root (SKILLS_DIR @ [d, js ''SKILL.md'']) \<longrightarrow>
      skill_step root d byName = Inr byName)
   \<and> for_each (skill_step root) ds byName
      = for_each (skill_step root)
          (filter (\<lambda>d. existsSync root (SKILLS_DIR @ [d, js ''SKILL.md''])) ds) byName
   \<and> (readdirSync root SKILLS_DIR = Inr es \<longrightarrow>
      (\<forall>e \<in> set es. \<not> existsSync root (SKILLS_DIR @ [fst e, js ''SKILL.md''])) \<longrightarrow>
      buildSkills root = Inr \<lparr>skills = [], skills_byName = []\<rparr>)
   \<and> (\<not> existsSync root SKILLS_DIR \<longrightarrow> build_output parse_package root = Inr out \<longrightarrow>
      out_skills out = [] \<and> content_skills (out_content out) = [])
   \<and> (\<not> existsSync root SUBAGENTS_DIR \<longrightarrow> build_output parse_package root = Inr out \<longrightarrow>
      out_subagents out = [] \<and> content_subagents (out_content out) = [])
   \<and> (\<not> existsSync root SKILLS_DIR \<longrightarrow> \<not> existsSync root SUBAGENTS_DIR \<longrightarrow>
      readWhenToUse root = Inr wtu \<longrightarrow> buildOverview parse_package root = Inr ov \<longrightarrow>
      build_output parse_package root
      = Inr \<lparr>out_skills = [], out_subagents = [],
             out_content = \<lparr>content_skills = [], content_subagents = [],
               catalog = buildCatalog \<lparr>skills = [], skills_byName = []\<rparr>
                           \<lparr>subagents = [], subagents_byName = []\<rparr>,
               whenToUse = wtu, overview = ov\<rparr>\<rparr>)"
  using buildSkills_absent [of root] buildSubagents_absent [of root]
    skill_step_skip [of root d byName] for_each_skip [of root ds byName]
    buildSkills_all_skipped [of root es] build_output_no_skills [of root parse_package out]
    build_output_no_subagents [of root parse_package out]
    build_output_bare [of root wtu parse_package ov]
  by blast

theorem missing_sources_skipped_witness:
  "\<not> existsSync bare_root SKILLS_DIR \<and> \<not> existsSync bare_root SUBAGENTS_DIR
   \<and> buildSkills bare_root = Inr \<lparr>skills = [], skills_byName = []\<rparr>
   \<and> buildSubagents bare_root = Inr \<lparr>subagents = [], subagents_byName = []\<rparr>
   \<and> readWhenToUse bare_root = Inr []
   \<and> (\<exists>ov. buildOverview bare_package bare_root = Inr ov
        \<and> build_output bare_package bare_root
          = Inr \<lparr>out_skills = [], out_subagents = [],
                 out_content = \<lparr>content_skills = [], content_subagents = [],
                   catalog = buildCatalog \<lparr>skills = [], skills_byName = []\<rparr>
                               \<lparr>subagents = [], subagents_byName = []\<rparr>,
                   whenToUse = [], overview = ov\<rparr>\<rparr>)
   \<and> \<not> existsSync notes_root (SKILLS_DIR @ [js ''notes'', js ''SKILL.md''])
   \<and> skill_step notes_root (js ''notes'') [] = Inr []
   \<and> readdirSync notes_root SKILLS_DIR
       = Inr [(js ''notes'', Dir [(js ''README.md'', File (js ''x''))])]
   \<and> buildSkills notes_root = Inr \<lparr>skills = [], skills_byName = []\<rparr>"
proof -
  have 1: "\<not> existsSync bare_root SKILLS_DIR" "\<not> existsSync bare_root SUBAGENTS_DIR"
    by code_simp+
  have 2: "readWhenToUse bare_root = Inr []" by code_simp
  obtain ov where 3: "buildOverview bare_package bare_root = Inr ov"
    by (simp add: buildOverview_def bare_package_def bare_root_def readFileSync_def)
  have 4: "\<not> existsSync notes_root (SKILLS_DIR @ [js ''notes'', js ''SKILL.md''])"
    by code_simp
  have 5: "readdirSync notes_root SKILLS_DIR
       = Inr [(js ''notes'', Dir [(js ''README.md'', File (js ''x''))])]"
    by code_simp
  have 6: "\<forall>e \<in> set [(js ''notes'', Dir [(js ''README.md'', File (js ''x''))])].
      \<not> existsSync notes_root (SKILLS_DIR @ [fst e, js ''SKILL.md''])"
    using 4 by simp
  from missing_sources_skipped [of bare_root "[]" "[]" "[]" "[]" bare_package _ "[]" ov] 1 2 3
  have a: "buildSkills bare_root = Inr \<lparr>skills = [], skills_byName = []\<rparr>"
    "buildSubagents bare_root = Inr \<lparr>subagents = [], subagents_byName = []\<rparr>"
    "build_output bare_package bare_root
          = Inr \<lparr>out_skills = [], out_subagents = [],
                 out_content = \<lparr>content_skills = [], content_subagents = [],
                   catalog = buildCatalog \<lparr>skills = [], skills_byName = []\<rparr>
                               \<lparr>subagents = [], subagents_byName = []\<rparr>,
                   whenToUse = [], overview = ov\<rparr>\<rparr>"
    by blast+
  from missing_sources_skipped
    [of notes_root "js ''notes''" "[]" "[]" "[(js ''notes'', Dir [(js ''README.md'', File (js ''x''))])]"]
    4 5 6
  have b: "skill_step notes_root (js ''notes'') [] = Inr []"
    "buildSkills notes_root = Inr \<lparr>skills = [], skills_byName = []\<rparr>"
    by blast+
  from 1 2 3 4 5 a b show ?thesis by blast
qed


section \<open>Properties of the serialization\<close>

lemma hex_digit_lower: "is_lower_hex (hex_digit n)"
proof -
  have "n mod 16 < length (js ''0123456789abcdef'')" by (simp add: js_def)
  then show ?thesis unfolding is_lower_hex_def hex_digit_def by (rule nth_mem)
qed

lemma lower_hex_plain: "is_lower_hex c \<Longrightarrow> c \<noteq> 0x22 \<and> c \<noteq> 0x5C \<and> \<not> is_space c"
  by (auto simp: is_lower_hex_def js_def is_space_def is_line_terminator_def)


lemma compact_unicode_escape [simp]:
  "compact_from InString (unicode_escape c @ r) = compact_from InString r"
  using lower_hex_plain [OF hex_digit_lower]
  by (simp add: unicode_escape_def js_def)

lemma compact_escape_unit [simp]:
  "compact_from InString (escape_unit c @ r) = compact_from InString r"
  by (simp add: escape_unit_def js_def)

lemma surrogate_plain:
  "is_lead c \<or> is_trail c \<Longrightarrow> c \<noteq> 0x22 \<and> c \<noteq> 0x5C"
  by (auto simp: is_lead_def is_trail_def)

lemma compact_quote_units [simp]:
  "compact_from InString (quote_units s @ r) = compact_from InString r"
proof (induction s rule: quote_units.induct)
  case 1
  then show ?case by simp
next
  case (2 c)
  then show ?case by simp
next
  case (3 c d ds)
  then show ?case using surrogate_plain [of c] surrogate_plain [of d] by simp
qed

lemma compact_QuoteJSONString [simp]:
  "compact_from Outside (QuoteJSONString s @ r) = compact_from Outside r"
  by (simp add: QuoteJSONString_def js_def)





section \<open>Properties of the written files\<close>










section \<open>Properties of the bundle\<close>

lemma map_of_map_entry:
  "map_of (map (\<lambda>e. (fst e, g (snd e))) xs) k = map_option g (map_of xs k)"
  by (induction xs) auto

lemma build_output_parts:
  assumes "build_output parse_package root = Inr out"
  obtains sd ad where "buildSkills root = Inr sd" and "buildSubagents root = Inr ad"
    and "out_skills out = skills sd" and "out_subagents out = subagents ad"
    and "content_skills (out_content out)
         = Object_fromEntries
             (map (\<lambda>(k, v). (k, \<lparr>entry_content = skill_content v,
                                   entry_reference = skill_reference v\<rparr>))
                (Object_entries (skills_byName sd)))"
    and "content_subagents (out_content out)
         = Object_fromEntries
             (map (\<lambda>(k, v). (k, \<lparr>aentry_content = subagent_content v\<rparr>))
                (Object_entries (subagents_byName ad)))"
  using assms by (auto simp: build_output_def Let_def split: sum.splits)

lemma content_of_byName:
  assumes "distinct (map fst ob)"
  shows "Object_fromEntries (map (\<lambda>(k, v). (k, g v)) (Object_entries ob))
         = map (\<lambda>e. (fst e, g (snd e))) (Object_entries ob)"
proof -
  have eq: "(\<lambda>(k, v). (k, g v)) = (\<lambda>e. (fst e, g (snd e)))"
    by (simp add: fun_eq_iff)
  have "distinct (map fst (map (\<lambda>e. (fst e, g (snd e))) (Object_entries ob)))"
    using Object_entries_distinct [OF assms] by (simp add: comp_def)
  then show ?thesis unfolding eq by (rule Object_fromEntries_distinct)
qed

lemma map_of_content:
  assumes "distinct (map fst ob)"
  shows "map_of (Object_fromEntries (map (\<lambda>(k, v). (k, g v)) (Object_entries ob))) k
         = map_option g (map_of ob k)"
  by (simp add: content_of_byName [OF assms] map_of_map_entry map_of_Object_entries [OF assms])

lemma build_output_skill_content:
  assumes "build_output parse_package root = Inr out" and "buildSkills root = Inr sd"
  shows "map_of (content_skills (out_content out)) k
         = map_option (\<lambda>v. \<lparr>entry_content = skill_content v, entry_reference = skill_reference v\<rparr>)
             (map_of (skills_byName sd) k)"
proof -
  from assms(1) obtain sd' where "buildSkills root = Inr sd'"
    and c: "content_skills (out_content out)
         = Object_fromEntries
             (map (\<lambda>(k, v). (k, \<lparr>entry_content = skill_content v,
                                   entry_reference = skill_reference v\<rparr>))
                (Object_entries (skills_byName sd')))"
    by (rule build_output_parts)
  with assms(2) have "sd' = sd" by simp
  with c skills_byName_distinct [OF assms(2)] show ?thesis by (simp add: map_of_content)
qed

lemma build_output_subagent_content:
  assumes "build_output parse_package root = Inr out" and "buildSubagents root = Inr ad"
  shows "map_of (content_subagents (out_content out)) k
         = map_option (\<lambda>v. \<lparr>aentry_content = subagent_content v\<rparr>)
             (map_of (subagents_byName ad) k)"
proof -
  from assms(1) obtain ad' where "buildSubagents root = Inr ad'"
    and c: "content_subagents (out_content out)
         = Object_fromEntries
             (map (\<lambda>(k, v). (k, \<lparr>aentry_content = subagent_content v\<rparr>))
                (Object_entries (subagents_byName ad')))"
    by (rule build_output_parts)
  with assms(2) have "ad' = ad" by simp
  with c subagents_byName_distinct [OF assms(2)] show ?thesis by (simp add: map_of_content)
qed


lemma map_filter_append: "List.map_filter f (xs @ ys) = List.map_filter f xs @ List.map_filter f ys"
  by (simp add: List.map_filter_def)

lemma skills_last_wins:
  assumes b: "buildSkills root = Inr sd" and dirs: "skill_dirs root = ds1 @ d # ds2"
    and m: "skill_made root d = Some r"
    and later: "\<forall>d' \<in> set ds2. \<forall>r'. skill_made root d' = Some r' \<longrightarrow> skill_name r' \<noteq> skill_name r"
    and np: "skill_name r \<noteq> js ''__proto__''"
  shows "map_of (skills_byName sd) (skill_name r) = Some r"
proof -
  have "List.map_filter (skill_made root) (skill_dirs root)
        = List.map_filter (skill_made root) ds1 @ r # List.map_filter (skill_made root) ds2"
    using m by (simp add: dirs map_filter_append List.map_filter_simps)
  moreover have "\<forall>r' \<in> set (List.map_filter (skill_made root) ds2). skill_name r' \<noteq> skill_name r"
    using later by (auto simp: List.map_filter_def)
  ultimately show ?thesis
    using map_of_foldl_obj_set_last [of skill_name r, OF np]
    by (simp add: buildSkills_result(1) [OF b])
qed


lemma skills_metadata:
  assumes "buildSkills root = Inr sd"
  shows "set (skills sd)
         = (\<lambda>e. \<lparr>meta_id = skill_id (snd e), meta_name = skill_name (snd e),
                  hasReference = truthy (skill_reference (snd e))\<rparr>) ` set (skills_byName sd)"
  by (simp add: buildSkills_result(2) [OF assms] Object_values_def image_image)

lemma subagents_metadata:
  assumes "buildSubagents root = Inr ad"
  shows "set (subagents ad)
         = (\<lambda>e. \<lparr>ameta_id = subagent_id (snd e), ameta_name = subagent_name (snd e)\<rparr>)
             ` set (subagents_byName ad)"
  by (simp add: buildSubagents_result(2) [OF assms] Object_values_def image_image)



















section \<open>The collision policy and the reference flag in general\<close>

lemma filter_key_length:
  "distinct (map fst xs) \<Longrightarrow> (k, v) \<in> set xs \<Longrightarrow> length (filter (\<lambda>e. fst e = k) xs) = 1"
proof (induction xs)
  case Nil
  then show ?case by simp
next
  case (Cons x xs)
  show ?case
  proof (cases "fst x = k")
    case True
    from Cons.prems(1) have "fst x \<notin> fst ` set xs" by simp
    with True have "\<forall>e \<in> set xs. fst e \<noteq> k" by (metis image_eqI)
    then have "filter (\<lambda>e. fst e = k) xs = []"
      by (simp add: filter_empty_conv)
    with True show ?thesis by simp
  next
    case False
    with Cons show ?thesis by auto
  qed
qed

lemma skills_content_list:
  assumes out: "build_output parse_package root = Inr out" and b: "buildSkills root = Inr sd"
  shows "content_skills (out_content out)
         = map (\<lambda>e. (fst e, \<lparr>entry_content = skill_content (snd e),
                               entry_reference = skill_reference (snd e)\<rparr>))
             (Object_entries (skills_byName sd))"
    and "out_skills out
         = map (\<lambda>e. \<lparr>meta_id = skill_id (snd e), meta_name = fst e,
                        hasReference = truthy (skill_reference (snd e))\<rparr>)
             (Object_entries (skills_byName sd))"
proof -
  from out obtain sd' where "buildSkills root = Inr sd'" and os: "out_skills out = skills sd'"
    and c: "content_skills (out_content out)
         = Object_fromEntries
             (map (\<lambda>(k, v). (k, \<lparr>entry_content = skill_content v,
                                   entry_reference = skill_reference v\<rparr>))
                (Object_entries (skills_byName sd')))"
    by (rule build_output_parts)
  with b have sd: "sd' = sd" by simp
  show "content_skills (out_content out)
         = map (\<lambda>e. (fst e, \<lparr>entry_content = skill_content (snd e),
                               entry_reference = skill_reference (snd e)\<rparr>))
             (Object_entries (skills_byName sd))"
    using c skills_byName_distinct [OF b] by (simp add: sd content_of_byName)
  have "\<forall>e \<in> set (Object_entries (skills_byName sd)). skill_name (snd e) = fst e"
    using skills_byName_entry [OF b] by auto
  then show "out_skills out
         = map (\<lambda>e. \<lparr>meta_id = skill_id (snd e), meta_name = fst e,
                        hasReference = truthy (skill_reference (snd e))\<rparr>)
             (Object_entries (skills_byName sd))"
    by (simp add: os sd buildSkills_result(2) [OF b] Object_values_def)
qed

text \<open>
  Last write wins, for every name but \<^verbatim>\<open>__proto__\<close>: when the directory \<open>b\<close> has the name
  \<open>n\<close> and no directory processed after it has, the bundle has exactly one key \<open>n\<close> and one
  metadata record named \<open>n\<close>, with the id and the content of \<open>b\<close>.
\<close>

lemma collision_last_write_wins:
  assumes out: "build_output parse_package root = Inr out"
    and dirs: "skill_dirs root = ds1 @ b # ds2"
    and c: "readFileSync root (SKILLS_DIR @ [b, js ''SKILL.md'']) = Inr cb"
    and n: "n = or_else (fm_name (extractFrontmatter cb)) b"
    and later: "\<forall>d' \<in> set ds2. \<forall>c'. readFileSync root (SKILLS_DIR @ [d', js ''SKILL.md'']) = Inr c'
                 \<longrightarrow> or_else (fm_name (extractFrontmatter c')) d' \<noteq> n"
    and np: "n \<noteq> js ''__proto__''"
  shows "length (filter (\<lambda>e. fst e = n) (content_skills (out_content out))) = 1"
    and "length (filter (\<lambda>m. meta_name m = n) (out_skills out)) = 1"
    and "\<forall>m \<in> set (out_skills out). meta_name m = n \<longrightarrow> meta_id m = b"
    and "\<forall>e \<in> set (content_skills (out_content out)). fst e = n \<longrightarrow> entry_content (snd e) = cb"
proof -
  from out obtain sd where b: "buildSkills root = Inr sd" by (rule build_output_parts)
  define r where "r = \<lparr>skill_id = b, skill_name = n,
      skill_description = or_else (fm_description (extractFrontmatter cb)) [],
      skill_content = cb,
      skill_reference = (case readFileSync root (SKILLS_DIR @ [b, js ''REFERENCE.md'']) of
                           Inl e \<Rightarrow> None | Inr t \<Rightarrow> Some t)\<rparr>"
  have m: "skill_made root b = Some r" using c by (simp add: skill_made_def r_def n)
  have rn: "skill_name r = n" by (simp add: r_def)
  have "\<forall>d' \<in> set ds2. \<forall>r'. skill_made root d' = Some r' \<longrightarrow> skill_name r' \<noteq> skill_name r"
  proof (intro ballI allI impI)
    fix d' r' assume d': "d' \<in> set ds2" and m': "skill_made root d' = Some r'"
    from skill_made_fields [OF m'] obtain c' where
      "readFileSync root (SKILLS_DIR @ [d', js ''SKILL.md'']) = Inr c'"
      "skill_name r' = or_else (fm_name (extractFrontmatter c')) d'" by blast
    with later d' show "skill_name r' \<noteq> skill_name r" by (simp add: rn)
  qed
  from skills_last_wins [OF b dirs m this] np
  have mo: "map_of (skills_byName sd) n = Some r" by (simp add: rn)
  let ?es = "Object_entries (skills_byName sd)"
  have d: "distinct (map fst ?es)"
    by (rule Object_entries_distinct) (rule skills_byName_distinct [OF b])
  from mo have mem: "(n, r) \<in> set ?es" by (auto dest: map_of_SomeD)
  have only: "e \<in> set ?es \<Longrightarrow> fst e = n \<Longrightarrow> snd e = r" for e
  proof -
    assume "e \<in> set ?es" "fst e = n"
    then have "(n, snd e) \<in> set ?es" by (metis prod.collapse)
    from map_of_is_SomeI [OF d this] map_of_is_SomeI [OF d mem] show "snd e = r" by simp
  qed
  have one: "length (filter (\<lambda>e. fst e = n) ?es) = 1"
    using d mem by (rule filter_key_length)
  show "length (filter (\<lambda>e. fst e = n) (content_skills (out_content out))) = 1"
    using one by (simp add: skills_content_list(1) [OF out b] filter_map comp_def)
  show "length (filter (\<lambda>m. meta_name m = n) (out_skills out)) = 1"
    using one by (simp add: skills_content_list(2) [OF out b] filter_map comp_def)
  show "\<forall>m \<in> set (out_skills out). meta_name m = n \<longrightarrow> meta_id m = b"
    using only by (auto simp: skills_content_list(2) [OF out b] r_def)
  show "\<forall>e \<in> set (content_skills (out_content out)). fst e = n \<longrightarrow> entry_content (snd e) = cb"
    using only by (auto simp: skills_content_list(1) [OF out b] r_def)
qed

text \<open>
  The flag of a metadata record is the truthiness of the reference text: it is set
  exactly when the \<^verbatim>\<open>REFERENCE.md\<close> of the directory of the record is a file that is not
  empty. Every metadata name has its entry in the content of the bundle.
\<close>

lemma hasReference_iff_nonempty:
  assumes b: "buildSkills root = Inr sd" and m: "m \<in> set (skills sd)"
  shows "hasReference m \<longleftrightarrow>
         (\<exists>t. readFileSync root (SKILLS_DIR @ [meta_id m, js ''REFERENCE.md'']) = Inr t \<and> t \<noteq> [])"
proof -
  from m obtain k r where e: "(k, r) \<in> set (skills_byName sd)"
    and mm: "m = \<lparr>meta_id = skill_id r, meta_name = skill_name r,
                   hasReference = truthy (skill_reference r)\<rparr>"
    by (auto simp: skills_metadata [OF b])
  from skills_byName_entry [OF b e] obtain d where "skill_made root d = Some r" by blast
  from skill_made_fields [OF this]
  have "skill_reference r = (case readFileSync root (SKILLS_DIR @ [skill_id r, js ''REFERENCE.md'']) of
                               Inl e \<Rightarrow> None | Inr t \<Rightarrow> Some t)"
    by auto
  then show ?thesis by (auto simp: mm truthy_def split: sum.splits)
qed

lemma metadata_names_have_content:
  assumes out: "build_output parse_package root = Inr out"
  shows "\<forall>m \<in> set (out_skills out).
           \<exists>e. map_of (content_skills (out_content out)) (meta_name m) = Some e
             \<and> (hasReference m \<longleftrightarrow> truthy (entry_reference e))"
    and "\<forall>m \<in> set (out_subagents out).
           map_of (content_subagents (out_content out)) (ameta_name m) \<noteq> None"
proof -
  from out obtain sd ad where b: "buildSkills root = Inr sd" and a: "buildSubagents root = Inr ad"
    and os: "out_skills out = skills sd" and oa: "out_subagents out = subagents ad"
    by (rule build_output_parts)
  show "\<forall>m \<in> set (out_skills out).
           \<exists>e. map_of (content_skills (out_content out)) (meta_name m) = Some e
             \<and> (hasReference m \<longleftrightarrow> truthy (entry_reference e))"
  proof
    fix m assume "m \<in> set (out_skills out)"
    then obtain k r where e: "(k, r) \<in> set (skills_byName sd)"
      and mm: "m = \<lparr>meta_id = skill_id r, meta_name = skill_name r,
                     hasReference = truthy (skill_reference r)\<rparr>"
      by (auto simp: os skills_metadata [OF b])
    from skills_byName_entry [OF b e] have "k = skill_name r" by blast
    with e skills_byName_distinct [OF b] have "map_of (skills_byName sd) (skill_name r) = Some r"
      by simp
    then show "\<exists>e. map_of (content_skills (out_content out)) (meta_name m) = Some e
             \<and> (hasReference m \<longleftrightarrow> truthy (entry_reference e))"
      by (simp add: build_output_skill_content [OF out b] mm)
  qed
  show "\<forall>m \<in> set (out_subagents out).
           map_of (content_subagents (out_content out)) (ameta_name m) \<noteq> None"
  proof
    fix m assume "m \<in> set (out_subagents out)"
    then obtain k r where e: "(k, r) \<in> set (subagents_byName ad)"
      and mm: "m = \<lparr>ameta_id = subagent_id r, ameta_name = subagent_name r\<rparr>"
      by (auto simp: oa subagents_metadata [OF a])
    from subagents_byName_entry [OF a e] have "k = subagent_name r" by blast
    with e subagents_byName_distinct [OF a] have "map_of (subagents_byName ad) (subagent_name r) = Some r"
      by simp
    then show "map_of (content_subagents (out_content out)) (ameta_name m) \<noteq> None"
      by (simp add: build_output_subagent_content [OF out a] mm)
  qed
qed


section \<open>Where the bundle departs from the specification\<close>

text \<open>
  Claim C2 fails for the name \<^verbatim>\<open>__proto__\<close>. The directories \<^verbatim>\<open>a\<close> and \<^verbatim>\<open>b\<close> both declare
  it; each assignment \<^verbatim>\<open>byName['__proto__'] = ...\<close> replaces the prototype of the map and
  adds no property, so the built bundle has no entry for the name where the claim
  promises exactly one: the metadata list and \<^verbatim>\<open>content.skills\<close> are empty.
\<close>

theorem proto_name_is_lost:
  "fm_name (extractFrontmatter proto_doc) = Some (js ''__proto__'')
   \<and> readFileSync proto_root (SKILLS_DIR @ [js ''a'', js ''SKILL.md'']) = Inr proto_doc
   \<and> readFileSync proto_root (SKILLS_DIR @ [js ''b'', js ''SKILL.md'']) = Inr proto_doc
   \<and> buildSkills proto_root = Inr \<lparr>skills = [], skills_byName = []\<rparr>
   \<and> map_sum id out_skills (build_output bare_package proto_root) = Inr []
   \<and> map_sum id (\<lambda>out. content_skills (out_content out)) (build_output bare_package proto_root)
     = Inr []"
  by code_simp

text \<open>
  Claim C5 fails for an empty secondary document. The directory \<^verbatim>\<open>foo\<close> contains
  \<^verbatim>\<open>REFERENCE.md\<close>, an empty file; \<^verbatim>\<open>!!s.reference\<close> is \<^verbatim>\<open>false\<close> for the empty string, so
  the metadata entry says \<^verbatim>\<open>hasReference: false\<close>.
\<close>

theorem empty_reference_not_flagged:
  "existsSync empty_reference_root (SKILLS_DIR @ [js ''foo'', js ''REFERENCE.md''])
   \<and> readFileSync empty_reference_root (SKILLS_DIR @ [js ''foo'', js ''REFERENCE.md'']) = Inr []
   \<and> map_sum id skills (buildSkills empty_reference_root)
     = Inr [\<lparr>meta_id = js ''foo'', meta_name = js ''foo'', hasReference = False\<rparr>]"
  by code_simp

text \<open>
  Claim C6 fails on the same input: in the built bundle the entry of \<^verbatim>\<open>foo\<close> in
  \<^verbatim>\<open>content.skills\<close> has the reference \<^verbatim>\<open>""\<close>, which is not \<^verbatim>\<open>null\<close>, and the metadata
  entry has \<^verbatim>\<open>hasReference: false\<close>.
\<close>

theorem empty_reference_bundle:
  "map_sum id out_skills (build_output bare_package empty_reference_root)
     = Inr [\<lparr>meta_id = js ''foo'', meta_name = js ''foo'', hasReference = False\<rparr>]
   \<and> map_sum id (\<lambda>out. content_skills (out_content out))
        (build_output bare_package empty_reference_root)
     = Inr [(js ''foo'', \<lparr>entry_content = js ''# Foo'', entry_reference = Some []\<rparr>)]"
  by code_simp


end
